theory Spec2Isabelle
  imports Complex_Main "HOL-Library.AList"
begin

section \<open>Data model\<close>

text \<open>
  URLs and chat ids are Python strings (\<open>admin_chat_id: str\<close> in \<open>url_monitor.py\<close>).
  A Python \<open>dict\<close> is an association list with distinct keys in insertion order;
  \<open>d[k] = v\<close> is \<open>AList.update k v d\<close> (an existing key keeps its place and gets the
  new value, a new key goes to the end) and \<open>d[k]\<close> is \<open>map_of d k\<close>, a missing key
  raising \<open>KeyError\<close>.
\<close>

type_synonym url = string
type_synonym admin_id = string

text \<open>
  The exceptions the model distinguishes. \<open>CancelledError\<close> is the one that is not an
  instance of \<open>Exception\<close> (it derives from \<open>BaseException\<close>); every other constructor
  stands for an instance of \<open>Exception\<close> and carries its \<open>str()\<close>.
\<close>

datatype py_exc =
    Exception string
  | KeyError string
  | TypeError string
  | AttributeError string
  | ValueError string
  | CancelledError

fun isinstance_Exception :: "py_exc \<Rightarrow> bool" where
  "isinstance_Exception CancelledError = False"
| "isinstance_Exception _ = True"

fun str :: "py_exc \<Rightarrow> string" where
  "str (Exception s) = s"
| "str (KeyError s) = s"
| "str (TypeError s) = s"
| "str (AttributeError s) = s"
| "str (ValueError s) = s"
| "str CancelledError = []"

subsection \<open>PingResult\<close>

text \<open>The dictionary \<open>ping_url\<close> returns, one field per key.\<close>

record ping_result =
  url :: url
  status_code :: int
  response_time :: real
  success :: bool
  timestamp :: string
  error :: "string option"

subsection \<open>The network, as the prober sees it\<close>

text \<open>
  What \<open>session.get(url, allow_redirects=True)\<close> does inside \<open>ping_url\<close> when the
  request settles: a response with its status arrives, or \<open>asyncio.TimeoutError\<close> is
  raised, or some other instance of \<open>Exception\<close> is raised (\<open>Failure (str e)\<close>).
  \<open>elapsed\<close> is the wall-clock difference \<open>end_time - start_time\<close> in seconds and
  \<open>started\<close> is \<open>start_time.isoformat()\<close>. A network answers for a URL and the total
  timeout the session was configured with.
\<close>

datatype http_outcome =
    Response int
  | TimeoutError
  | Failure string

record probe =
  outcome :: http_outcome
  elapsed :: real
  started :: string

type_synonym network = "url \<Rightarrow> int \<Rightarrow> probe"

text \<open>
  The await of \<open>session.get\<close> itself: the request settles in one of the three ways
  above, or \<open>asyncio.CancelledError\<close> is thrown into the coroutine while it waits
  (\<open>Interrupted\<close>). A session answers like a network, and may interrupt.
\<close>

datatype get_outcome = Settled probe | Interrupted

type_synonym session = "url \<Rightarrow> int \<Rightarrow> get_outcome"

text \<open>The session over a network on which every request settles.\<close>

definition undisturbed :: "network \<Rightarrow> session" where
  "undisturbed net = (\<lambda>u tmo. Settled (net u tmo))"

definition never_interrupts :: "session \<Rightarrow> bool" where
  "never_interrupts sess = (\<forall>u tmo. sess u tmo \<noteq> Interrupted)"

section \<open>The prober: \<open>URLMonitor.ping_url\<close>\<close>

text \<open>
  \<open>ping_url\<close> (url_monitor.py, lines 32-85), with the configured \<open>request_timeout\<close> as
  its first argument. The result is a sum: \<open>Inl\<close> an exception that reaches the caller,
  \<open>Inr\<close> the returned dictionary. The handlers at lines 59 and 73 catch
  \<open>asyncio.TimeoutError\<close> and \<open>Exception\<close>; \<open>CancelledError\<close> is an instance of neither
  and leaves the function. The debug, warning and error lines the prober writes to the
  logger are not part of the model.
\<close>

definition ping_url :: "int \<Rightarrow> session \<Rightarrow> url \<Rightarrow> py_exc + ping_result" where
  "ping_url timeout net u =
     (case net u timeout of
        Interrupted \<Rightarrow> Inl CancelledError
      | Settled p \<Rightarrow>
          (case outcome p of
             Response st \<Rightarrow>
               Inr \<lparr>url = u, status_code = st, response_time = elapsed p,
                    success = (200 \<le> st \<and> st < 400), timestamp = started p, error = None\<rparr>
           | TimeoutError \<Rightarrow>
               Inr \<lparr>url = u, status_code = 408, response_time = elapsed p,
                    success = False, timestamp = started p,
                    error = Some ''Request timeout''\<rparr>
           | Failure e \<Rightarrow>
               Inr \<lparr>url = u, status_code = 0, response_time = elapsed p,
                    success = False, timestamp = started p, error = Some e\<rparr>))"

text \<open>A session that settles in the same way for every URL, for stating what one probe
  does, and one that interrupts every request.\<close>

definition answering :: "http_outcome \<Rightarrow> real \<Rightarrow> string \<Rightarrow> session" where
  "answering oc t ts = undisturbed (\<lambda>u tmo. \<lparr>outcome = oc, elapsed = t, started = ts\<rparr>)"

definition interrupting :: session where
  "interrupting = (\<lambda>u tmo. Interrupted)"

section \<open>Configuration: \<open>Config\<close> (config.py)\<close>

text \<open>
  The attributes \<open>__init__\<close> assigns, and one more: \<open>admin_chat_id\<close>, which
  \<open>validate_config\<close> reads. No method of the class assigns it, so on an instance as
  \<open>__init__\<close> leaves it the attribute does not exist (\<open>None\<close> here) and reading it
  raises \<open>AttributeError\<close>; \<open>Some v\<close> is the attribute set to \<open>v\<close> from outside.
\<close>

record config =
  bot_token :: string
  primary_admin_chat_id :: int
  admin_chat_ids :: "int list"
  admin_data_file :: string
  ping_interval :: int
  request_timeout :: int
  data_file :: string
  log_file :: string
  admin_chat_id :: "int option"

text \<open>
  \<open>Config.__init__\<close> followed by \<open>_load_admin_data\<close>. The source assigns a fixed,
  non-empty string literal to \<open>bot_token\<close>; it is the argument \<open>token\<close> here. \<open>stored\<close>
  is what the admin file holds under \<open>admin_chat_ids\<close>, \<open>None\<close> when the file is missing
  or is not JSON (the defaults stay and are saved).
\<close>

definition Config_init :: "string \<Rightarrow> int list option \<Rightarrow> config" where
  "Config_init token stored =
     (let primary = 1691680798;
          ids = (case stored of
                   None \<Rightarrow> [primary]
                 | Some xs \<Rightarrow> if primary \<in> set xs then xs else xs @ [primary])
      in \<lparr>bot_token = token, primary_admin_chat_id = primary, admin_chat_ids = ids,
          admin_data_file = ''admin_data.json'', ping_interval = 60, request_timeout = 30,
          data_file = ''urls_data.json'', log_file = ''bot.log'', admin_chat_id = None\<rparr>)"

text \<open>\<open>sep.join(xs)\<close> on strings.\<close>

fun join :: "string \<Rightarrow> string list \<Rightarrow> string" where
  "join sep [] = []"
| "join sep [x] = x"
| "join sep (x # y # ys) = x @ sep @ join sep (y # ys)"

text \<open>
  \<open>validate_config\<close> (config.py, lines 101-121): the checks in the source's order. The
  token check only appends to \<open>errors\<close>; the read of \<open>self.admin_chat_id\<close> comes next
  and raises when the attribute is absent; an integer is falsy when it is 0.
\<close>

definition validate_config :: "config \<Rightarrow> py_exc + bool" where
  "validate_config c =
     (let errors0 = (if bot_token c = [] then [''Bot token is missing''] else []) in
      case admin_chat_id c of
        None \<Rightarrow> Inl (AttributeError ''admin_chat_id'')
      | Some aid \<Rightarrow>
          (let errors1 = errors0 @ (if aid = 0 then [''Admin chat ID is missing''] else []);
               errors2 = errors1 @ (if ping_interval c \<le> 0
                                    then [''Ping interval must be positive''] else []);
               errors3 = errors2 @ (if request_timeout c \<le> 0
                                    then [''Request timeout must be positive''] else [])
           in if errors3 \<noteq> []
              then Inl (ValueError (''Configuration errors: '' @ join '', '' errors3))
              else Inr True))"

section \<open>The store: \<open>DataManager\<close>\<close>

text \<open>
  \<open>data_manager.py\<close> is not among the sources; \<open>url_monitor.py\<close> only calls it. The
  definitions of this section follow the specification's store contract (sections 3, 4.3
  and 7): a mapping from (owner, URL) to the monitoring state and the check history, whose
  operations raise when the backing storage fails. Time is the store's own logical clock.
\<close>

datatype status = pending | online | offline

record check_record =
  checked_at :: nat
  ok :: bool
  http_status :: int
  seconds :: real

record monitored_url =
  status :: status
  last_check :: "nat option"
  last_response_time :: "real option"
  last_status_code :: "int option"
  added_at :: nat
  history :: "check_record list"

record store =
  entries :: "((admin_id \<times> url) \<times> monitored_url) list"
  clock :: nat
  io_error :: "string option"

text \<open>
  Modelled from the spec: \<open>DataManager()\<close>, the empty store (the constructor is in
  \<open>data_manager.py\<close>, which is missing).
\<close>

definition DataManager :: store where
  "DataManager = \<lparr>entries = [], clock = 0, io_error = None\<rparr>"

text \<open>
  Modelled from the spec: \<open>addURL(ownerID, url) -> bool\<close>, false if already present for
  that owner; a new entry is \<open>pending\<close> with no check yet (\<open>DataManager.add_url\<close> is
  missing).
\<close>

definition dm_add_url :: "url \<Rightarrow> admin_id \<Rightarrow> store \<Rightarrow> (py_exc + bool) \<times> store" where
  "dm_add_url u a d =
     (case io_error d of
        Some e \<Rightarrow> (Inl (Exception e), d)
      | None \<Rightarrow>
          (case map_of (entries d) (a, u) of
             Some _ \<Rightarrow> (Inr False, d)
           | None \<Rightarrow>
               (Inr True,
                d\<lparr>entries := entries d @
                      [((a, u), \<lparr>status = pending, last_check = None,
                                  last_response_time = None, last_status_code = None,
                                  added_at = clock d, history = []\<rparr>)],
                  clock := Suc (clock d)\<rparr>)))"

text \<open>
  Modelled from the spec: \<open>getURLs(ownerID) -> Map<url, state>\<close>, the entries of one
  owner (\<open>DataManager.get_urls\<close> is missing).
\<close>

definition get_urls :: "admin_id \<Rightarrow> store \<Rightarrow> py_exc + (url \<times> monitored_url) list" where
  "get_urls a d =
     (case io_error d of
        Some e \<Rightarrow> Inl (Exception e)
      | None \<Rightarrow> Inr (map (\<lambda>((b, u), st). (u, st)) (filter (\<lambda>((b, u), st). b = a) (entries d))))"

text \<open>
  Modelled from the spec: \<open>getAllURLs() -> Map<url, ownerID>\<close>, a dictionary from URL to
  owner filled from every (owner, URL) entry in order (\<open>DataManager.get_all_urls\<close> is
  missing; \<open>ping_all_urls\<close> uses its result as a \<open>dict\<close> keyed by URL).
\<close>

definition get_all_urls :: "store \<Rightarrow> py_exc + (url \<times> admin_id) list" where
  "get_all_urls d =
     (case io_error d of
        Some e \<Rightarrow> Inl (Exception e)
      | None \<Rightarrow> Inr (fold (\<lambda>((a, u), st) acc. AList.update u a acc) (entries d) []))"

text \<open>
  Modelled from the spec: \<open>updateStatus(url, ownerID, httpStatusCode,
  responseTimeSeconds, success)\<close> updates the current-state fields of the entry and
  appends a CheckRecord; the status becomes \<open>online\<close> or \<open>offline\<close>. An entry that does
  not exist is not created (\<open>DataManager.update_url_status\<close> is missing).
\<close>

definition update_url_status ::
  "url \<Rightarrow> admin_id \<Rightarrow> int \<Rightarrow> real \<Rightarrow> bool \<Rightarrow> store \<Rightarrow> py_exc + store" where
  "update_url_status u a code rt succ d =
     (case io_error d of
        Some e \<Rightarrow> Inl (Exception e)
      | None \<Rightarrow>
          (case map_of (entries d) (a, u) of
             None \<Rightarrow> Inr d
           | Some st \<Rightarrow>
               Inr (d\<lparr>entries := AList.update (a, u)
                         (st\<lparr>status := (if succ then online else offline),
                             last_check := Some (clock d),
                             last_response_time := Some rt,
                             last_status_code := Some code,
                             history := history st @
                               [\<lparr>checked_at = clock d, ok = succ,
                                 http_status = code, seconds = rt\<rparr>]\<rparr>)
                         (entries d),
                      clock := Suc (clock d)\<rparr>)))"

section \<open>The monitor: \<open>URLMonitor\<close> (url_monitor.py)\<close>

subsection \<open>State and effects\<close>

text \<open>
  An alert is the \<open>send_message\<close> call of \<open>_send_alert\<close>: the chat it goes to and the
  fields of the result its text is built from. A bot answers a call with \<open>None\<close> (sent)
  or \<open>Some e\<close> (it raised an \<open>Exception\<close> whose string is \<open>e\<close>).
\<close>

record alert =
  chat_id :: admin_id
  alert_url :: url
  alert_status_code :: int
  alert_response_time :: real
  alert_error :: "string option"

type_synonym bot = "alert \<Rightarrow> string option"

datatype task = Task

datatype level = DEBUG | INFO | WARNING | ERROR

text \<open>The messages the monitor logs, one constructor per format string of the source.\<close>

datatype message =
    No_URLs_to_ping
  | Ping_task_failed string
  | Completed_ping_cycle nat
  | Cannot_send_alert
  | Alert_sent url admin_id
  | Failed_to_send_alert url admin_id string
  | Monitoring_already_running
  | Starting_monitoring int
  | Sleeping real
  | Cycle_took_longer real int
  | Monitoring_loop_cancelled
  | Error_in_monitoring_loop string
  | Monitoring_stopped
  | Monitoring_stop_requested

text \<open>The fields \<open>URLMonitor.__init__\<close> assigns (\<open>_monitoring_task\<close> is \<open>monitoring_task\<close>).\<close>

record url_monitor =
  ping_interval :: int
  request_timeout :: int
  data_manager :: store
  is_running :: bool
  bot_instance :: "bot option"
  admin_chat_id :: "int option"
  monitoring_task :: "task option"

text \<open>A call of \<open>data_manager.update_url_status\<close>, with its arguments.\<close>

record status_write =
  w_url :: url
  w_admin :: admin_id
  w_status_code :: int
  w_response_time :: real
  w_success :: bool

text \<open>
  The monitor together with what it does to the outside: the lines written to the logger,
  the calls of \<open>update_url_status\<close> it made, the alerts the bot delivered, the
  durations passed to \<open>asyncio.sleep\<close>, and whether \<open>cancel()\<close> was called on the
  task the monitor holds.
\<close>

record world = url_monitor +
  logs :: "(level \<times> message) list"
  writes :: "status_write list"
  outbox :: "alert list"
  sleeps :: "real list"
  cancel_requested :: bool

definition URLMonitor :: "int \<Rightarrow> int \<Rightarrow> world" where
  "URLMonitor interval timeout =
     \<lparr>ping_interval = interval, request_timeout = timeout, data_manager = DataManager,
      is_running = False, bot_instance = None, admin_chat_id = None,
      monitoring_task = None, logs = [], writes = [], outbox = [], sleeps = [],
      cancel_requested = False\<rparr>"

definition set_bot_instance :: "bot \<Rightarrow> world \<Rightarrow> world" where
  "set_bot_instance b w = w\<lparr>bot_instance := Some b\<rparr>"

definition say :: "level \<Rightarrow> message \<Rightarrow> world \<Rightarrow> world" where
  "say lvl msg w = w\<lparr>logs := logs w @ [(lvl, msg)]\<rparr>"

text \<open>\<open>s.startswith(prefix)\<close>.\<close>

definition startswith :: "string \<Rightarrow> string \<Rightarrow> bool" where
  "startswith s prefix = (take (length prefix) s = prefix)"

text \<open>\<open>URLMonitor.add_url\<close> (lines 262-268).\<close>

definition add_url :: "url \<Rightarrow> admin_id \<Rightarrow> world \<Rightarrow> (py_exc + bool) \<times> world" where
  "add_url u a w =
     (let u' = (if \<not> (startswith u ''http://'' \<or> startswith u ''https://'')
                then ''https://'' @ u else u)
      in case dm_add_url u' a (data_manager w) of
           (res, d) \<Rightarrow> (res, w\<lparr>data_manager := d\<rparr>))"

subsection \<open>Alerts: \<open>_send_alert\<close>\<close>

text \<open>
  \<open>_send_alert\<close> (lines 168-196): without a bot it logs a warning and returns; with one
  it calls \<open>send_message\<close> and catches what that raises.
\<close>

definition alert_of :: "ping_result \<Rightarrow> admin_id \<Rightarrow> alert" where
  "alert_of ping_res a =
     \<lparr>chat_id = a, alert_url = url ping_res, alert_status_code = status_code ping_res,
      alert_response_time = response_time ping_res, alert_error = error ping_res\<rparr>"

definition send_alert :: "ping_result \<Rightarrow> admin_id \<Rightarrow> world \<Rightarrow> world" where
  "send_alert ping_res a w =
     (case bot_instance w of
        None \<Rightarrow> say WARNING Cannot_send_alert w
      | Some b \<Rightarrow>
          (let alert_msg = alert_of ping_res a
           in case b alert_msg of
                None \<Rightarrow> say INFO (Alert_sent (url ping_res) a)
                          (w\<lparr>outbox := outbox w @ [alert_msg]\<rparr>)
              | Some e \<Rightarrow> say ERROR (Failed_to_send_alert (url ping_res) a e) w))"

subsection \<open>One cycle: \<open>ping_all_urls\<close>\<close>

text \<open>Recording that \<open>update_url_status\<close> is called for a result and its owner.\<close>

definition write_of :: "ping_result \<Rightarrow> admin_id \<Rightarrow> status_write" where
  "write_of result admin =
     \<lparr>w_url = url result, w_admin = admin, w_status_code = status_code result,
      w_response_time = response_time result, w_success = success result\<rparr>"

definition called :: "ping_result \<Rightarrow> admin_id \<Rightarrow> world \<Rightarrow> world" where
  "called result admin w = w\<lparr>writes := writes w @ [write_of result admin]\<rparr>"

text \<open>
  The loop over the gathered results (lines 102-124). \<open>gather(..., return_exceptions=True)\<close>
  hands each task's exception over as a value, \<open>Inl\<close> here. A value that is an exception
  but not an instance of \<open>Exception\<close> passes the \<open>isinstance\<close> test and fails at
  \<open>result["url"]\<close>; a result whose URL is not a key of \<open>url_to_admin\<close> fails at
  \<open>url_to_admin[url]\<close>; a store failure propagates. The world returned with an exception
  is the one reached when it was raised.
\<close>

fun process_results ::
  "(url \<times> admin_id) list \<Rightarrow> (py_exc + ping_result) list \<Rightarrow> (url \<times> ping_result) list \<Rightarrow>
   world \<Rightarrow> (py_exc + (url \<times> ping_result) list) \<times> world" where
  "process_results url_to_admin [] ping_results w = (Inr ping_results, w)"
| "process_results url_to_admin (Inl e # results) ping_results w =
     (if isinstance_Exception e
      then process_results url_to_admin results ping_results
             (say ERROR (Ping_task_failed (str e)) w)
      else (Inl (TypeError ''object is not subscriptable''), w))"
| "process_results url_to_admin (Inr result # results) ping_results w =
     (case map_of url_to_admin (url result) of
        None \<Rightarrow> (Inl (KeyError (url result)), w)
      | Some admin \<Rightarrow>
          (case update_url_status (url result) admin (status_code result)
                  (response_time result) (success result) (data_manager w) of
             Inl e \<Rightarrow> (Inl e, called result admin w)
           | Inr d \<Rightarrow>
               process_results url_to_admin results
                 (AList.update (url result) result ping_results)
                 (if \<not> success result
                  then send_alert result admin ((called result admin w)\<lparr>data_manager := d\<rparr>)
                  else (called result admin w)\<lparr>data_manager := d\<rparr>)))"

text \<open>
  \<open>ping_all_urls\<close> (lines 87-126) over any prober: one task per key of the dictionary,
  gathered in the order of the keys.
\<close>

definition ping_all_urls_with ::
  "(url \<Rightarrow> py_exc + ping_result) \<Rightarrow> world \<Rightarrow> (py_exc + (url \<times> ping_result) list) \<times> world" where
  "ping_all_urls_with prober w =
     (case get_all_urls (data_manager w) of
        Inl e \<Rightarrow> (Inl e, w)
      | Inr url_to_admin \<Rightarrow>
          if url_to_admin = [] then (Inr [], say DEBUG No_URLs_to_ping w)
          else
            (case process_results url_to_admin (map prober (map fst url_to_admin)) [] w of
               (Inl e, w') \<Rightarrow> (Inl e, w')
             | (Inr ping_results, w') \<Rightarrow>
                 (Inr ping_results,
                  say INFO (Completed_ping_cycle (length ping_results)) w')))"

text \<open>\<open>ping_all_urls\<close> as the source has it: the prober is \<open>self.ping_url\<close>.\<close>

definition ping_all_urls ::
  "session \<Rightarrow> world \<Rightarrow> (py_exc + (url \<times> ping_result) list) \<times> world" where
  "ping_all_urls net w = ping_all_urls_with (ping_url (request_timeout w) net) w"

subsection \<open>The loop: \<open>start_monitoring\<close> and \<open>stop_monitoring\<close>\<close>

text \<open>\<open>stop_monitoring\<close> (lines 234-239).\<close>

definition stop_monitoring :: "world \<Rightarrow> world" where
  "stop_monitoring w =
     say INFO Monitoring_stop_requested
       (case monitoring_task w of
          None \<Rightarrow> w\<lparr>is_running := False\<rparr>
        | Some tk \<Rightarrow> w\<lparr>is_running := False, cancel_requested := True\<rparr>)"

text \<open>
  What the surroundings do during one iteration of the loop: how the requests of the
  probes end, the wall-clock duration \<open>elapsed_time\<close> of the cycle, whether
  \<open>stop_monitoring\<close> is called
  while the cycle waits for its probes or while the loop sleeps, and whether the task that
  runs the loop is cancelled by its owner while the cycle waits for its probes. Both
  events of the cycle are placed at \<open>await asyncio.gather\<close>, where the probes are in
  flight and nothing has been processed yet.
\<close>

record tick =
  answers :: session
  stop_in_cycle :: bool
  task_cancelled :: bool
  elapsed_time :: real
  stop_in_sleep :: bool

text \<open>
  The body of \<open>while self.is_running\<close> (lines 209-222). A pending cancellation raises
  \<open>CancelledError\<close> at the await the loop is suspended in.
\<close>

definition iteration :: "tick \<Rightarrow> world \<Rightarrow> py_exc option \<times> world" where
  "iteration t w =
     (let w1 = (if stop_in_cycle t then stop_monitoring w else w) in
      if task_cancelled t \<or> cancel_requested w1 then (Some CancelledError, w1)
      else
        (case ping_all_urls (answers t) w1 of
           (Inl e, w2) \<Rightarrow> (Some e, w2)
         | (Inr res, w2) \<Rightarrow>
             (let sleep_time = max 0 (real_of_int (ping_interval w2) - elapsed_time t) in
              if sleep_time > 0
              then
                (let w3 = (say DEBUG (Sleeping sleep_time) w2)\<lparr>sleeps := sleeps w2 @ [sleep_time]\<rparr>;
                     w4 = (if stop_in_sleep t then stop_monitoring w3 else w3)
                 in if cancel_requested w4 then (Some CancelledError, w4) else (None, w4))
              else (None, say WARNING (Cycle_took_longer (elapsed_time t) (ping_interval w2)) w2))))"

text \<open>
  The \<open>while\<close> loop over a script of iterations. \<open>Pending\<close>: the script ended with the
  loop still running. \<open>Returned\<close>: the loop found \<open>is_running\<close> false at the top of an
  iteration. \<open>Raised e\<close>: \<open>e\<close> left the loop body.
\<close>

datatype loop_result = Pending | Returned | Raised py_exc

fun monitoring_loop :: "tick list \<Rightarrow> world \<Rightarrow> loop_result \<times> world" where
  "monitoring_loop [] w = (if is_running w then (Pending, w) else (Returned, w))"
| "monitoring_loop (t # ts) w =
     (if \<not> is_running w then (Returned, w)
      else (case iteration t w of
              (Some e, w') \<Rightarrow> (Raised e, w')
            | (None, w') \<Rightarrow> monitoring_loop ts w'))"

text \<open>The \<open>finally\<close> clause of \<open>start_monitoring\<close>.\<close>

definition finally_stopped :: "world \<Rightarrow> world" where
  "finally_stopped w = say INFO Monitoring_stopped (w\<lparr>is_running := False\<rparr>)"

text \<open>
  \<open>start_monitoring\<close> (lines 198-232): the guard, the loop, the two handlers in the
  source's order and the \<open>finally\<close> clause.
\<close>

definition start_monitoring :: "tick list \<Rightarrow> world \<Rightarrow> loop_result \<times> world" where
  "start_monitoring ts w =
     (if is_running w then (Returned, say WARNING Monitoring_already_running w)
      else
        (case monitoring_loop ts
                (say INFO (Starting_monitoring (ping_interval w)) (w\<lparr>is_running := True\<rparr>)) of
           (Pending, w') \<Rightarrow> (Pending, w')
         | (Returned, w') \<Rightarrow> (Returned, finally_stopped w')
         | (Raised e, w') \<Rightarrow>
             (if e = CancelledError
              then (Raised e, finally_stopped (say INFO Monitoring_loop_cancelled w'))
              else if isinstance_Exception e
              then (Raised e, finally_stopped (say ERROR (Error_in_monitoring_loop (str e)) w'))
              else (Raised e, finally_stopped w'))))"

section \<open>What a cycle is expected to do\<close>

text \<open>
  The effects of a cycle, written as list functions of the gathered results: the results
  that are dictionaries, the owner the URL dictionary holds for a URL, the store writes
  and the alerts that are due, and whether a bot takes an alert.
\<close>

fun oks :: "(py_exc + ping_result) list \<Rightarrow> ping_result list" where
  "oks [] = []"
| "oks (Inl e # xs) = oks xs"
| "oks (Inr r # xs) = r # oks xs"


definition owners :: "(url \<times> admin_id) list \<Rightarrow> url \<Rightarrow> admin_id list" where
  "owners url_to_admin u = (case map_of url_to_admin u of None \<Rightarrow> [] | Some a \<Rightarrow> [a])"

definition writes_due :: "(url \<times> admin_id) list \<Rightarrow> ping_result list \<Rightarrow> status_write list" where
  "writes_due url_to_admin rs =
     concat (map (\<lambda>r. map (write_of r) (owners url_to_admin (url r))) rs)"

definition alerts_due :: "(url \<times> admin_id) list \<Rightarrow> ping_result list \<Rightarrow> alert list" where
  "alerts_due url_to_admin rs =
     concat (map (\<lambda>r. if success r then [] else map (alert_of r) (owners url_to_admin (url r))) rs)"

definition accepted :: "bot option \<Rightarrow> alert \<Rightarrow> bool" where
  "accepted b m = (case b of None \<Rightarrow> False | Some f \<Rightarrow> f m = None)"

text \<open>A task result the loop over the results can handle without raising.\<close>

fun handled :: "(url \<times> admin_id) list \<Rightarrow> py_exc + ping_result \<Rightarrow> bool" where
  "handled url_to_admin (Inl e) = isinstance_Exception e"
| "handled url_to_admin (Inr r) = (map_of url_to_admin (url r) \<noteq> None)"

text \<open>What a task may do for the loop over the results to go through: raise an
  \<open>Exception\<close>, or return a dictionary for the URL it was started for.\<close>

fun answers_for :: "url \<Rightarrow> py_exc + ping_result \<Rightarrow> bool" where
  "answers_for u (Inl e) = isinstance_Exception e"
| "answers_for u (Inr r) = (url r = u)"

section \<open>Example states\<close>

text \<open>A bot that delivers every message.\<close>

definition always_sends :: bot where
  "always_sends = (\<lambda>m. None)"

text \<open>Owners 1 and 2 have both registered the same URL; a bot is set.\<close>

definition shared_url :: world where
  "shared_url =
     snd (add_url ''x.org'' ''2''
       (snd (add_url ''x.org'' ''1'' (set_bot_instance always_sends (URLMonitor 60 30)))))"

text \<open>Owner 1 has registered three URLs; no bot is set.\<close>

definition three_urls :: world where
  "three_urls =
     snd (add_url ''c.org'' ''1''
       (snd (add_url ''b.org'' ''1'' (snd (add_url ''a.org'' ''1'' (URLMonitor 60 30))))))"

text \<open>A session on which \<open>https://a.org\<close> answers 200 and everything else 500, and
  the same session with the request to \<open>https://b.org\<close> interrupted.\<close>

definition example_network :: network where
  "example_network = (\<lambda>u tmo. \<lparr>outcome = (if u = ''https://a.org'' then Response 200
                                             else Response 500),
                                 elapsed = 1, started = ''t0''\<rparr>)"

definition example_net :: session where
  "example_net = undisturbed example_network"



text \<open>One iteration of the loop on \<open>example_net\<close> whose cycle takes \<open>secs\<close> seconds.\<close>

definition quiet_tick :: "real \<Rightarrow> tick" where
  "quiet_tick secs = \<lparr>answers = example_net, stop_in_cycle = False, task_cancelled = False,
                       elapsed_time = secs, stop_in_sleep = False\<rparr>"

section \<open>Reading the log of the loop\<close>

text \<open>
  Every cycle ends with exactly one of two lines (\<open>No URLs to ping\<close>, \<open>Completed ping
  cycle\<close>), every overrun writes the \<open>took longer\<close> warning, and the loop over the
  results writes only the four lines about tasks and alerts.
\<close>

fun is_cycle_end :: "message \<Rightarrow> bool" where
  "is_cycle_end No_URLs_to_ping = True"
| "is_cycle_end (Completed_ping_cycle n) = True"
| "is_cycle_end _ = False"

fun is_overrun :: "message \<Rightarrow> bool" where
  "is_overrun (Cycle_took_longer secs interval) = True"
| "is_overrun _ = False"

fun from_results :: "message \<Rightarrow> bool" where
  "from_results (Ping_task_failed e) = True"
| "from_results Cannot_send_alert = True"
| "from_results (Alert_sent u a) = True"
| "from_results (Failed_to_send_alert u a e) = True"
| "from_results _ = False"

definition cycles_run :: "world \<Rightarrow> nat" where
  "cycles_run w = length (filter is_cycle_end (map snd (logs w)))"

definition overruns :: "world \<Rightarrow> message list" where
  "overruns w = filter is_overrun (map snd (logs w))"

text \<open>An iteration during which nobody stops the monitor, cancels its task or
  interrupts a request of its probes.\<close>

definition quiet :: "tick \<Rightarrow> bool" where
  "quiet t = (\<not> stop_in_cycle t \<and> \<not> task_cancelled t \<and> \<not> stop_in_sleep t
              \<and> never_interrupts (answers t))"

text \<open>An iteration during which the owner of the task cancels it while the probes are in
  flight, and one during which \<open>stop_monitoring\<close> is called while they are.\<close>

definition cancel_tick :: tick where
  "cancel_tick = \<lparr>answers = example_net, stop_in_cycle = False, task_cancelled = True,
                   elapsed_time = 5, stop_in_sleep = False\<rparr>"

definition stop_tick :: tick where
  "stop_tick = \<lparr>answers = example_net, stop_in_cycle = True, task_cancelled = False,
                 elapsed_time = 5, stop_in_sleep = False\<rparr>"

text \<open>A monitor whose store cannot be read.\<close>

definition broken_store :: world where
  "broken_store = (URLMonitor 60 30)\<lparr>data_manager := DataManager\<lparr>io_error := Some ''disk''\<rparr>\<rparr>"

section \<open>Properties of the prober\<close>

text \<open>
  C2, as the code has it. For every URL and every timeout bound: when the request
  settles (a response, a timeout, or any other instance of \<open>Exception\<close>), \<open>ping_url\<close>
  returns a result dictionary for that URL and raises nothing, and when no response
  arrived the dictionary has \<open>success = False\<close> and an error description that is not
  \<open>None\<close>; when \<open>CancelledError\<close> is thrown into the pending request, neither handler
  catches it and \<open>ping_url\<close> raises it to its caller.
\<close>

theorem ping_url_returns_unless_interrupted:
  "case net u timeout of
     Settled p \<Rightarrow>
       (\<exists>r. ping_url timeout net u = Inr r \<and> url r = u \<and>
            ((\<exists>st. outcome p = Response st) \<or> (success r = False \<and> error r \<noteq> None)))
   | Interrupted \<Rightarrow> ping_url timeout net u = Inl CancelledError"
proof (cases "net u timeout")
  case (Settled p)
  then show ?thesis by (cases "outcome p") (simp_all add: ping_url_def)
next
  case Interrupted
  then show ?thesis by (simp add: ping_url_def)
qed

theorem ping_url_returns_unless_interrupted_witness:
  "(\<exists>r. ping_url 30 (answering TimeoutError 30 ''t0'') ''https://a.org'' = Inr r
        \<and> url r = ''https://a.org'' \<and> success r = False \<and> error r \<noteq> None)
   \<and> ping_url 30 interrupting ''https://a.org'' = Inl CancelledError"
  using ping_url_returns_unless_interrupted
          [where net = "answering TimeoutError 30 ''t0''" and u = "''https://a.org''"
             and timeout = 30]
        ping_url_returns_unless_interrupted
          [where net = interrupting and u = "''https://a.org''" and timeout = 30]
  by (simp add: answering_def undisturbed_def interrupting_def)

text \<open>
  The claim C2 says \<open>ping_url\<close> never raises to its caller. The request to
  \<open>https://a.org\<close> is interrupted by \<open>CancelledError\<close>: the call raises it and returns no
  dictionary.
\<close>

theorem ping_url_interrupted_raises:
  "ping_url 30 interrupting ''https://a.org'' = Inl CancelledError"
  by (simp add: ping_url_def interrupting_def)

text \<open>
  C3. When a response with status \<open>st\<close> arrives, \<open>success\<close> is exactly
  \<open>200 \<le> st < 400\<close>: 399 succeeds and 400 fails; a probe without a response
  (timeout, other failure) has \<open>success = False\<close>.
\<close>

theorem ping_url_success_iff_2xx_3xx:
  "ping_url timeout (answering (Response st) t ts) u
     = Inr \<lparr>url = u, status_code = st, response_time = t,
            success = (200 \<le> st \<and> st < 400), timestamp = ts, error = None\<rparr>
   \<and> (\<exists>r. ping_url timeout (answering (Response 399) t ts) u = Inr r \<and> success r = True)
   \<and> (\<exists>r. ping_url timeout (answering (Response 400) t ts) u = Inr r \<and> success r = False)
   \<and> (\<exists>r. ping_url timeout (answering TimeoutError t ts) u = Inr r \<and> success r = False)
   \<and> (\<exists>r. ping_url timeout (answering (Failure e) t ts) u = Inr r \<and> success r = False)"
  by (simp add: ping_url_def answering_def undisturbed_def)

text \<open>
  C5. A probe that times out yields status code 408, the error \<open>Request timeout\<close> and
  \<open>success = False\<close>, whatever time elapsed and whatever the timeout bound; any other
  failure yields status code 0 and the failure's string as the error.
\<close>

theorem ping_url_timeout_408_failure_0:
  "ping_url timeout (answering TimeoutError t ts) u
     = Inr \<lparr>url = u, status_code = 408, response_time = t,
            success = False, timestamp = ts, error = Some ''Request timeout''\<rparr>
   \<and> ping_url timeout (answering (Failure e) t ts) u
     = Inr \<lparr>url = u, status_code = 0, response_time = t,
            success = False, timestamp = ts, error = Some e\<rparr>"
  by (simp add: ping_url_def answering_def undisturbed_def)

section \<open>One cycle\<close>

subsection \<open>The store stays usable; alerts leave the rest of the state alone\<close>

lemma update_url_status_healthy:
  "io_error d = None \<Longrightarrow>
   \<exists>d'. update_url_status u a code rt succ d = Inr d' \<and> io_error d' = None"
  by (simp add: update_url_status_def split: option.splits)

lemma send_alert_frame:
  "data_manager (send_alert r a w) = data_manager w \<and> writes (send_alert r a w) = writes w
   \<and> is_running (send_alert r a w) = is_running w
   \<and> bot_instance (send_alert r a w) = bot_instance w
   \<and> ping_interval (send_alert r a w) = ping_interval w
   \<and> request_timeout (send_alert r a w) = request_timeout w
   \<and> monitoring_task (send_alert r a w) = monitoring_task w
   \<and> cancel_requested (send_alert r a w) = cancel_requested w
   \<and> sleeps (send_alert r a w) = sleeps w"
  by (simp add: send_alert_def say_def Let_def split: option.splits)

lemma send_alert_outbox:
  "outbox (send_alert r a w) = outbox w @ filter (accepted (bot_instance w)) [alert_of r a]"
  by (simp add: send_alert_def say_def Let_def accepted_def split: option.splits)


subsection \<open>The loop over the gathered results\<close>

text \<open>
  When the store is usable and every gathered value can be handled, the loop over the
  results raises nothing, keeps every returned dictionary under its URL, calls
  \<open>update_url_status\<close> once per dictionary and hands every failed one to \<open>_send_alert\<close>.
\<close>

lemma process_results_effects:
  "io_error (data_manager w) = None \<Longrightarrow> list_all (handled uta) results \<Longrightarrow>
   \<exists>w'. process_results uta results acc w
            = (Inr (fold (\<lambda>r. AList.update (url r) r) (oks results) acc), w')
      \<and> io_error (data_manager w') = None
      \<and> writes w' = writes w @ writes_due uta (oks results)
      \<and> outbox w' = outbox w @ filter (accepted (bot_instance w)) (alerts_due uta (oks results))
      \<and> is_running w' = is_running w \<and> bot_instance w' = bot_instance w
      \<and> ping_interval w' = ping_interval w \<and> request_timeout w' = request_timeout w
      \<and> monitoring_task w' = monitoring_task w \<and> cancel_requested w' = cancel_requested w
      \<and> sleeps w' = sleeps w"
proof (induction uta results acc w rule: process_results.induct)
  case (1 uta acc w)
  then show ?case by (simp add: writes_due_def alerts_due_def)
next
  case (2 uta e results acc w)
  then show ?case by (simp add: say_def)
next
  case (3 uta result results acc w)
  from "3.prems" obtain admin where adm: "map_of uta (url result) = Some admin" by auto
  from "3.prems" obtain d where
    d: "update_url_status (url result) admin (status_code result)
          (response_time result) (success result) (data_manager w) = Inr d"
       "io_error d = None"
    using update_url_status_healthy by blast
  let ?w1 = "(called result admin w)\<lparr>data_manager := d\<rparr>"
  let ?w2 = "if \<not> success result then send_alert result admin ?w1 else ?w1"
  have h: "io_error (data_manager ?w2) = None" using d by (simp add: send_alert_frame)
  from "3.IH"[OF adm d(1) h] "3.prems" obtain w' where
    w': "process_results uta results (AList.update (url result) result acc) ?w2
           = (Inr (fold (\<lambda>r. AList.update (url r) r) (oks results)
                     (AList.update (url result) result acc)), w')"
      "io_error (data_manager w') = None"
      "writes w' = writes ?w2 @ writes_due uta (oks results)"
      "outbox w' = outbox ?w2 @ filter (accepted (bot_instance ?w2)) (alerts_due uta (oks results))"
      "is_running w' = is_running ?w2" "bot_instance w' = bot_instance ?w2"
      "ping_interval w' = ping_interval ?w2" "request_timeout w' = request_timeout ?w2"
      "monitoring_task w' = monitoring_task ?w2" "cancel_requested w' = cancel_requested ?w2"
      "sleeps w' = sleeps ?w2"
    by auto
  have f1: "writes ?w2 = writes w @ [write_of result admin]"
    by (simp add: send_alert_frame called_def)
  have f2: "outbox ?w2 = outbox w @
      (if success result then [] else filter (accepted (bot_instance w)) [alert_of result admin])"
    by (simp add: send_alert_outbox called_def)
  have f3: "is_running ?w2 = is_running w" "bot_instance ?w2 = bot_instance w"
      "ping_interval ?w2 = ping_interval w" "request_timeout ?w2 = request_timeout w"
      "monitoring_task ?w2 = monitoring_task w" "cancel_requested ?w2 = cancel_requested w"
      "sleeps ?w2 = sleeps w"
    by (simp_all add: send_alert_frame called_def)
  have eq: "process_results uta (Inr result # results) acc w
      = process_results uta results (AList.update (url result) result acc) ?w2"
    using adm d(1) by simp
  show ?case
    unfolding eq using w' f1 f2 f3 adm
    by (simp add: writes_due_def alerts_due_def owners_def)
qed




lemma get_all_urls_distinct: "get_all_urls d = Inr uta \<Longrightarrow> distinct (map fst uta)"
proof -
  have "distinct (map fst acc) \<Longrightarrow>
        distinct (map fst (fold (\<lambda>((a, u), st) acc. AList.update u a acc) es acc))" for es and acc :: "(url \<times> admin_id) list"
    by (induction es arbitrary: acc) (auto simp: distinct_update split: prod.splits)
  from this[of "[]"] show "get_all_urls d = Inr uta \<Longrightarrow> distinct (map fst uta)"
    by (auto simp: get_all_urls_def split: option.splits)
qed

subsection \<open>A whole cycle\<close>

lemma ping_all_urls_with_effects:
  assumes "io_error (data_manager w) = None"
      and "get_all_urls (data_manager w) = Inr uta"
      and "list_all (handled uta) (map prober (map fst uta))"
  shows "\<exists>w'. ping_all_urls_with prober w
            = (Inr (fold (\<lambda>r. AList.update (url r) r) (oks (map prober (map fst uta))) []), w')
      \<and> io_error (data_manager w') = None
      \<and> writes w' = writes w @ writes_due uta (oks (map prober (map fst uta)))
      \<and> outbox w' = outbox w @ filter (accepted (bot_instance w))
                                   (alerts_due uta (oks (map prober (map fst uta))))
      \<and> is_running w' = is_running w \<and> bot_instance w' = bot_instance w
      \<and> ping_interval w' = ping_interval w \<and> request_timeout w' = request_timeout w
      \<and> monitoring_task w' = monitoring_task w \<and> cancel_requested w' = cancel_requested w
      \<and> sleeps w' = sleeps w"
proof (cases "uta = []")
  case True
  then show ?thesis
    using assms by (simp add: ping_all_urls_with_def say_def writes_due_def alerts_due_def)
next
  case False
  from process_results_effects[OF assms(1) assms(3), of "[]"] obtain w1 where
    w1: "process_results uta (map prober (map fst uta)) [] w
           = (Inr (fold (\<lambda>r. AList.update (url r) r) (oks (map prober (map fst uta))) []), w1)"
        "io_error (data_manager w1) = None"
        "writes w1 = writes w @ writes_due uta (oks (map prober (map fst uta)))"
        "outbox w1 = outbox w @ filter (accepted (bot_instance w))
                                   (alerts_due uta (oks (map prober (map fst uta))))"
        "is_running w1 = is_running w" "bot_instance w1 = bot_instance w"
        "ping_interval w1 = ping_interval w" "request_timeout w1 = request_timeout w"
        "monitoring_task w1 = monitoring_task w" "cancel_requested w1 = cancel_requested w"
        "sleeps w1 = sleeps w"
    by blast
  show ?thesis
    using False assms(2) w1 by (simp add: ping_all_urls_with_def say_def)
qed


lemma answers_for_handled:
  "u \<in> fst ` set uta \<Longrightarrow> answers_for u x \<Longrightarrow> handled uta x"
  by (cases x) (auto simp: map_of_eq_None_iff)

lemma answers_for_all_handled:
  "list_all (\<lambda>u. answers_for u (prober u)) us \<Longrightarrow> set us \<subseteq> fst ` set uta \<Longrightarrow>
   list_all (handled uta) (map prober us)"
  by (induction us) (auto intro: answers_for_handled)

lemma answers_for_urls:
  "list_all (\<lambda>u. answers_for u (prober u)) us \<Longrightarrow>
   map url (oks (map prober us)) = filter (\<lambda>u. \<not> isl (prober u)) us"
proof (induction us)
  case Nil
  then show ?case by simp
next
  case (Cons u us)
  then show ?case by (cases "prober u") auto
qed

lemma writes_due_urls:
  "set (map url rs) \<subseteq> fst ` set uta \<Longrightarrow> map w_url (writes_due uta rs) = map url rs
     \<and> map w_success (writes_due uta rs) = map success rs"
proof (induction rs)
  case Nil
  then show ?case by (simp add: writes_due_def)
next
  case (Cons r rs)
  then obtain a where "map_of uta (url r) = Some a"
    by (cases "map_of uta (url r)") (auto simp: map_of_eq_None_iff)
  then show ?case using Cons by (simp add: writes_due_def owners_def write_of_def)
qed

section \<open>Properties of one cycle\<close>

lemma never_interrupts_undisturbed: "never_interrupts (undisturbed net)"
  by (simp add: never_interrupts_def undisturbed_def)

lemma ping_url_returns:
  "never_interrupts net \<Longrightarrow> \<exists>r. ping_url timeout net u = Inr r \<and> url r = u"
proof -
  assume "never_interrupts net"
  then obtain p where p: "net u timeout = Settled p"
    by (cases "net u timeout") (auto simp: never_interrupts_def)
  show ?thesis using p by (cases "outcome p") (simp_all add: ping_url_def)
qed

lemma ping_url_answers_for:
  "never_interrupts net \<Longrightarrow> list_all (\<lambda>u. answers_for u (ping_url timeout net u)) us"
proof (induction us)
  case Nil
  then show ?case by simp
next
  case (Cons u us)
  from ping_url_returns[OF Cons.prems, of timeout u] obtain r where
    "ping_url timeout net u = Inr r" "url r = u" by blast
  then show ?case using Cons by simp
qed

lemma ping_url_not_isl: "never_interrupts net \<Longrightarrow> \<not> isl (ping_url timeout net u)"
  using ping_url_returns[of net timeout u] by auto

lemma three_urls_store:
  "io_error (data_manager three_urls) = None \<and>
   get_all_urls (data_manager three_urls)
     = Inr [(''https://a.org'', ''1''), (''https://b.org'', ''1''), (''https://c.org'', ''1'')] \<and>
   bot_instance three_urls = None \<and> writes three_urls = [] \<and> outbox three_urls = [] \<and>
   request_timeout three_urls = 30 \<and> ping_interval three_urls = 60 \<and>
   is_running three_urls = False \<and> monitoring_task three_urls = None \<and>
   cancel_requested three_urls = False \<and> sleeps three_urls = [] \<and> logs three_urls = []"
  by (simp add: three_urls_def add_url_def dm_add_url_def URLMonitor_def DataManager_def
      startswith_def get_all_urls_def)






subsection \<open>One owner per URL\<close>

text \<open>
  Whatever dictionary the store returns, its keys are URLs, so a cycle makes one call of
  \<open>update_url_status\<close> per URL, for the one owner the dictionary holds, and sends at most
  one alert per URL.
\<close>

lemma ping_all_urls_one_write_per_url:
  assumes "io_error (data_manager w) = None"
      and "get_all_urls (data_manager w) = Inr uta"
      and "never_interrupts net"
  shows "\<exists>ws al. writes (snd (ping_all_urls net w)) = writes w @ ws
      \<and> map w_url ws = map fst uta \<and> distinct (map w_url ws)
      \<and> outbox (snd (ping_all_urls net w)) = outbox w @ al \<and> length al \<le> length uta"
proof -
  let ?p = "ping_url (request_timeout w) net"
  let ?rs = "oks (map ?p (map fst uta))"
  have ans: "list_all (\<lambda>u. answers_for u (?p u)) (map fst uta)"
    using assms(3) by (rule ping_url_answers_for)
  have hd: "list_all (handled uta) (map ?p (map fst uta))"
    using ans by (intro answers_for_all_handled) auto
  have urls: "map url ?rs = map fst uta"
    using answers_for_urls[OF ans] by (simp add: ping_url_not_isl[OF assms(3)])
  have sub: "set (map url ?rs) \<subseteq> fst ` set uta" unfolding urls by auto
  from ping_all_urls_with_effects[OF assms(1) assms(2) hd] obtain w' where
    w': "ping_all_urls_with ?p w = (Inr (fold (\<lambda>r. AList.update (url r) r) ?rs []), w')"
        "writes w' = writes w @ writes_due uta ?rs"
        "outbox w' = outbox w @ filter (accepted (bot_instance w)) (alerts_due uta ?rs)"
    by blast
  have len: "length (alerts_due uta rs) \<le> length rs" for rs
    by (induction rs) (auto simp: alerts_due_def owners_def split: option.splits)
  have "length (filter (accepted (bot_instance w)) (alerts_due uta ?rs)) \<le> length ?rs"
    using len[of ?rs] length_filter_le[of "accepted (bot_instance w)" "alerts_due uta ?rs"]
    by linarith
  moreover have "length ?rs = length uta"
    using arg_cong[OF urls, of length] by simp
  ultimately have al: "length (filter (accepted (bot_instance w)) (alerts_due uta ?rs)) \<le> length uta"
    by simp
  have wu: "map w_url (writes_due uta ?rs) = map fst uta"
    using writes_due_urls[OF sub] urls by simp
  have "distinct (map w_url (writes_due uta ?rs))"
    unfolding wu using assms(2) by (rule get_all_urls_distinct)
  then show ?thesis
    using w' wu al by (auto simp: ping_all_urls_def)
qed

text \<open>
  C1. Owners 1 and 2 have both registered \<open>https://x.org\<close> and the probe fails with
  status 500. The store holds two entries, the URL dictionary one key; the cycle calls
  \<open>update_url_status\<close> once, for owner 2, and sends one alert, to owner 2. The entry of
  owner 1 stays \<open>pending\<close> with an empty history.
\<close>

theorem shared_url_cycle_serves_one_owner:
  "map fst (entries (data_manager shared_url))
     = [(''1'', ''https://x.org''), (''2'', ''https://x.org'')]
   \<and> get_all_urls (data_manager shared_url) = Inr [(''https://x.org'', ''2'')]
   \<and> map w_admin (writes (snd (ping_all_urls (answering (Response 500) 1 ''t0'') shared_url)))
       = [''2'']
   \<and> map chat_id (outbox (snd (ping_all_urls (answering (Response 500) 1 ''t0'') shared_url)))
       = [''2'']
   \<and> map (\<lambda>(k, st). (k, status st, length (history st)))
        (entries (data_manager (snd (ping_all_urls (answering (Response 500) 1 ''t0'') shared_url))))
       = [((''1'', ''https://x.org''), pending, 0), ((''2'', ''https://x.org''), offline, 1)]"
  by (simp add: shared_url_def add_url_def dm_add_url_def URLMonitor_def DataManager_def
      startswith_def get_all_urls_def set_bot_instance_def always_sends_def
      ping_all_urls_def ping_all_urls_with_def ping_url_def answering_def undisturbed_def
      update_url_status_def called_def write_of_def send_alert_def alert_of_def say_def)

section \<open>Configuration\<close>

text \<open>
  With the attribute \<open>admin_chat_id\<close> present and truthy and a token set, validation
  does what its messages say: it returns \<open>True\<close> exactly when the interval and the
  timeout are positive, and raises \<open>ValueError\<close> otherwise.
\<close>

lemma validate_config_with_admin_chat_id:
  assumes "config.admin_chat_id c = Some aid" and "aid \<noteq> 0" and "bot_token c \<noteq> []"
  shows "(validate_config c = Inr True)
           = (0 < config.ping_interval c \<and> 0 < config.request_timeout c)"
    and "config.ping_interval c \<le> 0 \<or> config.request_timeout c \<le> 0 \<Longrightarrow>
           \<exists>m. validate_config c = Inl (ValueError m)"
  using assms by (auto simp: validate_config_def Let_def)

text \<open>
  C9. On a configuration as \<open>Config.__init__\<close> builds it, \<open>validate_config\<close> raises
  \<open>AttributeError\<close> at \<open>self.admin_chat_id\<close>: it does not return \<open>True\<close> for the
  defaults (interval 60, timeout 30), and for an interval of 0 or a timeout of -1 it
  raises the same \<open>AttributeError\<close>, not the \<open>ValueError\<close> that lists the
  configuration errors.
\<close>

theorem validate_config_after_init_raises:
  "validate_config (Config_init token stored) = Inl (AttributeError ''admin_chat_id'')
   \<and> validate_config ((Config_init token stored)\<lparr>config.ping_interval := 0\<rparr>)
       = Inl (AttributeError ''admin_chat_id'')
   \<and> validate_config ((Config_init token stored)\<lparr>config.request_timeout := - 1\<rparr>)
       = Inl (AttributeError ''admin_chat_id'')"
  by (simp add: validate_config_def Config_init_def Let_def)

section \<open>The loop\<close>

subsection \<open>What a cycle leaves alone\<close>

lemma get_all_urls_healthy: "io_error d = None \<Longrightarrow> \<exists>uta. get_all_urls d = Inr uta"
  by (simp add: get_all_urls_def)

lemma get_all_urls_broken: "io_error d = Some e \<Longrightarrow> get_all_urls d = Inl (Exception e)"
  by (simp add: get_all_urls_def)

lemma process_results_frame:
  "is_running (snd (process_results uta results acc w)) = is_running w
   \<and> cancel_requested (snd (process_results uta results acc w)) = cancel_requested w
   \<and> monitoring_task (snd (process_results uta results acc w)) = monitoring_task w
   \<and> ping_interval (snd (process_results uta results acc w)) = ping_interval w
   \<and> sleeps (snd (process_results uta results acc w)) = sleeps w"
proof (induction uta results acc w rule: process_results.induct)
  case (1 uta acc w)
  then show ?case by simp
next
  case (2 uta e results acc w)
  then show ?case by (simp add: say_def)
next
  case (3 uta result results acc w)
  then show ?case
    by (auto simp: called_def send_alert_frame split: option.splits sum.splits)
qed

lemma ping_all_urls_frame:
  "is_running (snd (ping_all_urls net w)) = is_running w
   \<and> cancel_requested (snd (ping_all_urls net w)) = cancel_requested w
   \<and> monitoring_task (snd (ping_all_urls net w)) = monitoring_task w
   \<and> ping_interval (snd (ping_all_urls net w)) = ping_interval w
   \<and> sleeps (snd (ping_all_urls net w)) = sleeps w"
proof (cases "get_all_urls (data_manager w)")
  case (Inl e)
  then show ?thesis by (simp add: ping_all_urls_def ping_all_urls_with_def)
next
  case (Inr uta)
  let ?pr = "process_results uta (map (ping_url (request_timeout w) net) (map fst uta)) [] w"
  show ?thesis
  proof (cases "uta = []")
    case True
    then show ?thesis using Inr by (simp add: ping_all_urls_def ping_all_urls_with_def say_def)
  next
    case False
    obtain res w1 where pr: "?pr = (res, w1)" by (cases ?pr)
    have "is_running w1 = is_running w \<and> cancel_requested w1 = cancel_requested w
        \<and> monitoring_task w1 = monitoring_task w \<and> ping_interval w1 = ping_interval w
        \<and> sleeps w1 = sleeps w"
      using process_results_frame[of uta "map (ping_url (request_timeout w) net) (map fst uta)" "[]" w] pr
      by simp
    then show ?thesis
      using False Inr pr
      by (cases res) (simp_all add: ping_all_urls_def ping_all_urls_with_def say_def)
  qed
qed

lemma send_alert_logs_kind:
  "\<exists>l. logs (send_alert r a w) = logs w @ l \<and> list_all (\<lambda>x. from_results (snd x)) l"
  by (simp add: send_alert_def say_def Let_def split: option.splits)

lemma process_results_logs_kind:
  "\<exists>l. logs (snd (process_results uta results acc w)) = logs w @ l
      \<and> list_all (\<lambda>x. from_results (snd x)) l"
proof (induction uta results acc w rule: process_results.induct)
  case (1 uta acc w)
  then show ?case by simp
next
  case (2 uta e results acc w)
  show ?case
  proof (cases "isinstance_Exception e")
    case True
    from 2[OF True] obtain l where
      "logs (snd (process_results uta results acc (say ERROR (Ping_task_failed (str e)) w)))
          = logs (say ERROR (Ping_task_failed (str e)) w) @ l"
      "list_all (\<lambda>x. from_results (snd x)) l"
      by blast
    then show ?thesis
      using True
      by (intro exI[of _ "(ERROR, Ping_task_failed (str e)) # l"]) (simp add: say_def)
  next
    case False
    then show ?thesis by simp
  qed
next
  case (3 uta result results acc w)
  show ?case
  proof (cases "map_of uta (url result)")
    case None
    then show ?thesis by simp
  next
    case (Some admin)
    show ?thesis
    proof (cases "update_url_status (url result) admin (status_code result)
          (response_time result) (success result) (data_manager w)")
      case (Inl e)
      then show ?thesis using Some by (simp add: called_def)
    next
      case (Inr d)
      let ?w1 = "(called result admin w)\<lparr>data_manager := d\<rparr>"
      let ?w2 = "if \<not> success result then send_alert result admin ?w1 else ?w1"
      have "\<exists>l0. logs ?w2 = logs w @ l0 \<and> list_all (\<lambda>x. from_results (snd x)) l0"
      proof (cases "success result")
        case True
        then show ?thesis by (simp add: called_def)
      next
        case False
        from send_alert_logs_kind[of result admin ?w1] obtain l1 where
          "logs (send_alert result admin ?w1) = logs ?w1 @ l1"
          "list_all (\<lambda>x. from_results (snd x)) l1" by blast
        then show ?thesis using False by (simp add: called_def)
      qed
      then obtain l0 where l0: "logs ?w2 = logs w @ l0" "list_all (\<lambda>x. from_results (snd x)) l0"
        by blast
      from 3[OF Some Inr] obtain l where
        l: "logs (snd (process_results uta results (AList.update (url result) result acc) ?w2))
              = logs ?w2 @ l"
           "list_all (\<lambda>x. from_results (snd x)) l"
        by blast
      have eq: "process_results uta (Inr result # results) acc w
        = process_results uta results (AList.update (url result) result acc) ?w2"
        using Some Inr by simp
      show ?thesis
        unfolding eq
        by (rule exI[of _ "l0 @ l"]) (use l l0 in simp)
    qed
  qed
qed

lemma from_results_filters:
  "list_all (\<lambda>x. from_results (snd x)) l \<Longrightarrow>
   filter is_cycle_end (map snd l) = [] \<and> filter is_overrun (map snd l) = []"
proof (induction l)
  case Nil
  then show ?case by simp
next
  case (Cons x l)
  obtain lv m where x: "x = (lv, m)" by (cases x)
  from Cons show ?case unfolding x by (cases m) simp_all
qed

text \<open>A cycle on a usable store raises nothing, keeps the store usable, writes one line
  that ends a cycle and no overrun warning.\<close>

lemma ping_all_urls_ok:
  assumes "io_error (data_manager w) = None" and "never_interrupts net"
  shows "\<exists>pr. fst (ping_all_urls net w) = Inr pr"
    and "io_error (data_manager (snd (ping_all_urls net w))) = None"
    and "cycles_run (snd (ping_all_urls net w)) = Suc (cycles_run w)"
    and "overruns (snd (ping_all_urls net w)) = overruns w"
proof -
  let ?p = "ping_url (request_timeout w) net"
  from get_all_urls_healthy[OF assms(1)] obtain uta where
    uta: "get_all_urls (data_manager w) = Inr uta"
    by blast
  have ans: "list_all (\<lambda>u. answers_for u (?p u)) (map fst uta)"
    using assms(2) by (rule ping_url_answers_for)
  have hd: "list_all (handled uta) (map ?p (map fst uta))"
    using ans by (intro answers_for_all_handled) auto
  from ping_all_urls_with_effects[OF assms(1) uta hd] obtain w' where
    w': "ping_all_urls_with ?p w
           = (Inr (fold (\<lambda>r. AList.update (url r) r) (oks (map ?p (map fst uta))) []), w')"
        "io_error (data_manager w') = None"
    by blast
  show "\<exists>pr. fst (ping_all_urls net w) = Inr pr"
    using w'(1) by (simp add: ping_all_urls_def)
  show "io_error (data_manager (snd (ping_all_urls net w))) = None"
    using w' by (simp add: ping_all_urls_def)
  have lg: "cycles_run (snd (ping_all_urls net w)) = Suc (cycles_run w)
          \<and> overruns (snd (ping_all_urls net w)) = overruns w"
  proof (cases "uta = []")
    case True
    then show ?thesis
      using uta by (simp add: ping_all_urls_def ping_all_urls_with_def say_def
          cycles_run_def overruns_def)
  next
    case False
    from process_results_effects[OF assms(1) hd, of "[]"] obtain w1 where
      w1: "process_results uta (map ?p (map fst uta)) [] w
            = (Inr (fold (\<lambda>r. AList.update (url r) r) (oks (map ?p (map fst uta))) []), w1)"
      by blast
    from process_results_logs_kind[of uta "map ?p (map fst uta)" "[]" w] w1 obtain l where
      l: "logs w1 = logs w @ l" "list_all (\<lambda>x. from_results (snd x)) l"
      by auto
    show ?thesis
      using False uta w1 l(1) from_results_filters[OF l(2)]
      by (simp add: ping_all_urls_def ping_all_urls_with_def say_def
          cycles_run_def overruns_def)
  qed
  then show "cycles_run (snd (ping_all_urls net w)) = Suc (cycles_run w)"
    and "overruns (snd (ping_all_urls net w)) = overruns w"
    by simp_all
qed

subsection \<open>Quiet iterations\<close>

text \<open>The world the loop goes on with after a quiet iteration on world \<open>w\<close>.\<close>

lemma iteration_quiet:
  assumes "io_error (data_manager w) = None" and "\<not> cancel_requested w" and "quiet t"
  shows "iteration t w =
     (None,
      let w2 = snd (ping_all_urls (answers t) w);
          s = max 0 (real_of_int (ping_interval w) - elapsed_time t)
      in if elapsed_time t < real_of_int (ping_interval w)
         then (say DEBUG (Sleeping s) w2)\<lparr>sleeps := sleeps w2 @ [s]\<rparr>
         else say WARNING (Cycle_took_longer (elapsed_time t) (ping_interval w)) w2)"
proof -
  have ni: "never_interrupts (answers t)" using assms(3) by (simp add: quiet_def)
  obtain res w2 where p: "ping_all_urls (answers t) w = (res, w2)"
    by (cases "ping_all_urls (answers t) w")
  from ping_all_urls_ok(1)[OF assms(1) ni] p obtain pr where res: "res = Inr pr"
    by auto
  have fr: "ping_interval w2 = ping_interval w" "cancel_requested w2 = cancel_requested w"
    using ping_all_urls_frame[of "answers t" w] p by simp_all
  show ?thesis
    using assms(2,3) p res fr
    by (auto simp: iteration_def quiet_def Let_def say_def max_def)
qed

lemma quiet_step_facts:
  assumes "io_error (data_manager w) = None" and "\<not> cancel_requested w" and "quiet t"
      and "is_running w"
  shows "fst (iteration t w) = None"
    and "io_error (data_manager (snd (iteration t w))) = None"
    and "\<not> cancel_requested (snd (iteration t w))"
    and "is_running (snd (iteration t w))"
    and "ping_interval (snd (iteration t w)) = ping_interval w"
    and "sleeps (snd (iteration t w)) = sleeps w @
           filter (\<lambda>s. 0 < s) [max 0 (real_of_int (ping_interval w) - elapsed_time t)]"
    and "overruns (snd (iteration t w)) = overruns w @
           map (\<lambda>t. Cycle_took_longer (elapsed_time t) (ping_interval w))
               (filter (\<lambda>t. real_of_int (ping_interval w) \<le> elapsed_time t) [t])"
    and "cycles_run (snd (iteration t w)) = Suc (cycles_run w)"
proof -
  let ?w2 = "snd (ping_all_urls (answers t) w)"
  note it = iteration_quiet[OF assms(1,2,3)]
  note fr = ping_all_urls_frame[of "answers t" w]
  have ni: "never_interrupts (answers t)" using assms(3) by (simp add: quiet_def)
  note ok = ping_all_urls_ok[OF assms(1) ni]
  show "fst (iteration t w) = None" using it by simp
  show "io_error (data_manager (snd (iteration t w))) = None"
    using it ok(2) by (simp add: Let_def say_def)
  show "\<not> cancel_requested (snd (iteration t w))"
    using it fr assms(2) by (simp add: Let_def say_def)
  show "is_running (snd (iteration t w))"
    using it fr assms(4) by (simp add: Let_def say_def)
  show "ping_interval (snd (iteration t w)) = ping_interval w"
    using it fr by (simp add: Let_def say_def)
  show "sleeps (snd (iteration t w)) = sleeps w @
           filter (\<lambda>s. 0 < s) [max 0 (real_of_int (ping_interval w) - elapsed_time t)]"
    using it fr by (simp add: Let_def say_def max_def)
  show "overruns (snd (iteration t w)) = overruns w @
           map (\<lambda>t. Cycle_took_longer (elapsed_time t) (ping_interval w))
               (filter (\<lambda>t. real_of_int (ping_interval w) \<le> elapsed_time t) [t])"
    using it ok(4) by (auto simp: Let_def say_def overruns_def)
  show "cycles_run (snd (iteration t w)) = Suc (cycles_run w)"
    using it ok(3) by (auto simp: Let_def say_def cycles_run_def)
qed

lemma quiet_run:
  assumes "is_running w" and "io_error (data_manager w) = None" and "\<not> cancel_requested w"
      and "list_all quiet ts"
  shows "\<exists>w'. monitoring_loop ts w = (Pending, w')
      \<and> sleeps w' = sleeps w @ filter (\<lambda>s. 0 < s)
            (map (\<lambda>t. max 0 (real_of_int (ping_interval w) - elapsed_time t)) ts)
      \<and> overruns w' = overruns w @
            map (\<lambda>t. Cycle_took_longer (elapsed_time t) (ping_interval w))
                (filter (\<lambda>t. real_of_int (ping_interval w) \<le> elapsed_time t) ts)
      \<and> cycles_run w' = cycles_run w + length ts"
  using assms
proof (induction ts arbitrary: w)
  case Nil
  then show ?case by simp
next
  case (Cons t ts)
  from Cons.prems have q: "quiet t" and qs: "list_all quiet ts" by simp_all
  note st = quiet_step_facts[OF Cons.prems(2,3) q Cons.prems(1)]
  let ?w1 = "snd (iteration t w)"
  from Cons.IH[OF st(4) st(2) st(3) qs] obtain w' where
    w': "monitoring_loop ts ?w1 = (Pending, w')"
        "sleeps w' = sleeps ?w1 @ filter (\<lambda>s. 0 < s)
            (map (\<lambda>t. max 0 (real_of_int (ping_interval ?w1) - elapsed_time t)) ts)"
        "overruns w' = overruns ?w1 @
            map (\<lambda>t. Cycle_took_longer (elapsed_time t) (ping_interval ?w1))
                (filter (\<lambda>t. real_of_int (ping_interval ?w1) \<le> elapsed_time t) ts)"
        "cycles_run w' = cycles_run ?w1 + length ts"
    by blast
  have step: "monitoring_loop (t # ts) w = monitoring_loop ts ?w1"
    using Cons.prems(1) st(1) by (cases "iteration t w") simp
  show ?case
    unfolding step
    by (rule exI[of _ w']) (use w' st(5,6,7,8) in simp)
qed

text \<open>
  C4. While the loop runs undisturbed on a usable store, an iteration whose cycle took
  \<open>elapsed_time\<close> seconds ends as follows: if that is less than the interval the loop
  sleeps for \<open>max(0, interval - elapsed_time)\<close>, otherwise it logs the overrun warning
  and does not sleep; either way the next iteration follows at once on the resulting
  state. Over a whole script of such iterations the loop is still running at the end, it
  has run one cycle per iteration, it has slept exactly the positive values of
  \<open>max(0, interval - elapsed_time)\<close> in order, and it has logged one overrun warning for
  each iteration whose cycle took at least the interval.
\<close>

theorem scheduler_sleeps_remaining_interval:
  assumes "is_running w" and "io_error (data_manager w) = None" and "\<not> cancel_requested w"
      and "list_all quiet (t # ts)"
  shows "monitoring_loop (t # ts) w = monitoring_loop ts
           (let w2 = snd (ping_all_urls (answers t) w);
                s = max 0 (real_of_int (ping_interval w) - elapsed_time t)
            in if elapsed_time t < real_of_int (ping_interval w)
               then (say DEBUG (Sleeping s) w2)\<lparr>sleeps := sleeps w2 @ [s]\<rparr>
               else say WARNING (Cycle_took_longer (elapsed_time t) (ping_interval w)) w2)
       \<and> (\<exists>w'. monitoring_loop (t # ts) w = (Pending, w')
            \<and> sleeps w' = sleeps w @ filter (\<lambda>s. 0 < s)
                 (map (\<lambda>t. max 0 (real_of_int (ping_interval w) - elapsed_time t)) (t # ts))
            \<and> overruns w' = overruns w @
                 map (\<lambda>t. Cycle_took_longer (elapsed_time t) (ping_interval w))
                     (filter (\<lambda>t. real_of_int (ping_interval w) \<le> elapsed_time t) (t # ts))
            \<and> cycles_run w' = cycles_run w + length (t # ts))"
proof -
  from assms(4) have q: "quiet t" by simp
  have "monitoring_loop (t # ts) w = monitoring_loop ts
           (let w2 = snd (ping_all_urls (answers t) w);
                s = max 0 (real_of_int (ping_interval w) - elapsed_time t)
            in if elapsed_time t < real_of_int (ping_interval w)
               then (say DEBUG (Sleeping s) w2)\<lparr>sleeps := sleeps w2 @ [s]\<rparr>
               else say WARNING (Cycle_took_longer (elapsed_time t) (ping_interval w)) w2)"
    using assms(1) iteration_quiet[OF assms(2,3) q] by simp
  then show ?thesis
    using quiet_run[OF assms] by blast
qed

theorem scheduler_sleeps_remaining_interval_witness:
  "is_running (three_urls\<lparr>is_running := True\<rparr>)
   \<and> io_error (data_manager (three_urls\<lparr>is_running := True\<rparr>)) = None
   \<and> \<not> cancel_requested (three_urls\<lparr>is_running := True\<rparr>)
   \<and> list_all quiet [quiet_tick 5, quiet_tick 65]
   \<and> (\<exists>w'. monitoring_loop [quiet_tick 5, quiet_tick 65] (three_urls\<lparr>is_running := True\<rparr>)
              = (Pending, w')
        \<and> sleeps w' = [55]
        \<and> overruns w' = [Cycle_took_longer 65 60]
        \<and> cycles_run w' = 2)"
proof -
  let ?w = "three_urls\<lparr>is_running := True\<rparr>"
  have h1: "is_running ?w" by simp
  have h2: "io_error (data_manager ?w) = None" using three_urls_store by simp
  have h3: "\<not> cancel_requested ?w" using three_urls_store by simp
  have h4: "list_all quiet [quiet_tick 5, quiet_tick 65]"
    by (simp add: quiet_def quiet_tick_def example_net_def never_interrupts_undisturbed)
  have st: "sleeps ?w = []" "ping_interval ?w = 60" "overruns ?w = []" "cycles_run ?w = 0"
    using three_urls_store by (simp_all add: overruns_def cycles_run_def)
  from scheduler_sleeps_remaining_interval[OF h1 h2 h3 h4] obtain w' where
    w': "monitoring_loop [quiet_tick 5, quiet_tick 65] ?w = (Pending, w')"
        "sleeps w' = sleeps ?w @ filter (\<lambda>s. 0 < s)
             (map (\<lambda>t. max 0 (real_of_int (ping_interval ?w) - elapsed_time t))
                  [quiet_tick 5, quiet_tick 65])"
        "overruns w' = overruns ?w @
             map (\<lambda>t. Cycle_took_longer (elapsed_time t) (ping_interval ?w))
                 (filter (\<lambda>t. real_of_int (ping_interval ?w) \<le> elapsed_time t)
                         [quiet_tick 5, quiet_tick 65])"
        "cycles_run w' = cycles_run ?w + length [quiet_tick 5, quiet_tick 65]"
    by blast
  have c1: "sleeps w' = [55]" unfolding w'(2) st by (simp add: quiet_tick_def)
  have c2: "overruns w' = [Cycle_took_longer 65 60]" unfolding w'(3) st by (simp add: quiet_tick_def)
  have c3: "cycles_run w' = 2" unfolding w'(4) st by simp
  have "\<exists>w'. monitoring_loop [quiet_tick 5, quiet_tick 65] ?w = (Pending, w')
        \<and> sleeps w' = [55] \<and> overruns w' = [Cycle_took_longer 65 60] \<and> cycles_run w' = 2"
    by (intro exI[of _ w'] conjI w'(1) c1 c2 c3)
  then show ?thesis using h1 h2 h3 h4 by blast
qed

subsection \<open>How the loop ends\<close>

lemma stop_monitoring_frame:
  "\<not> is_running (stop_monitoring w)
   \<and> data_manager (stop_monitoring w) = data_manager w
   \<and> request_timeout (stop_monitoring w) = request_timeout w
   \<and> ping_interval (stop_monitoring w) = ping_interval w
   \<and> bot_instance (stop_monitoring w) = bot_instance w
   \<and> monitoring_task (stop_monitoring w) = monitoring_task w
   \<and> writes (stop_monitoring w) = writes w \<and> outbox (stop_monitoring w) = outbox w
   \<and> sleeps (stop_monitoring w) = sleeps w
   \<and> logs (stop_monitoring w) = logs w @ [(INFO, Monitoring_stop_requested)]
   \<and> cancel_requested (stop_monitoring w)
        = (cancel_requested w \<or> monitoring_task w \<noteq> None)"
  by (cases "monitoring_task w") (simp_all add: stop_monitoring_def say_def)

text \<open>An iteration during which \<open>stop_monitoring\<close> is not called keeps the flag.\<close>

lemma iteration_keeps_running:
  assumes "iteration t w = (None, w')" and "is_running w"
      and "\<not> stop_in_cycle t" and "\<not> stop_in_sleep t"
  shows "is_running w'"
proof -
  obtain res w2 where p: "ping_all_urls (answers t) w = (res, w2)"
    by (cases "ping_all_urls (answers t) w")
  have fr: "is_running w2 = is_running w"
    using ping_all_urls_frame[of "answers t" w] p by simp
  show ?thesis
    using assms p fr
    by (cases res) (auto simp: iteration_def Let_def say_def split: if_splits)
qed

lemma monitoring_loop_pending_running:
  "monitoring_loop ts w = (Pending, w') \<Longrightarrow> is_running w'"
proof (induction ts arbitrary: w)
  case Nil
  then show ?case by (simp split: if_splits)
next
  case (Cons t ts)
  then show ?case
    by (cases "iteration t w") (auto split: if_splits option.splits)
qed

lemma monitoring_loop_returned_stopped:
  "monitoring_loop ts w = (Returned, w') \<Longrightarrow> \<not> is_running w'"
proof (induction ts arbitrary: w)
  case Nil
  then show ?case by (simp split: if_splits)
next
  case (Cons t ts)
  then show ?case
    by (cases "iteration t w") (auto split: if_splits option.splits)
qed

lemma monitoring_loop_returned_was_stopped:
  "monitoring_loop ts w = (Returned, w') \<Longrightarrow> is_running w \<Longrightarrow>
   \<exists>t \<in> set ts. stop_in_cycle t \<or> stop_in_sleep t"
proof (induction ts arbitrary: w)
  case Nil
  then show ?case by simp
next
  case (Cons t ts)
  obtain x w1 where it: "iteration t w = (x, w1)" by (cases "iteration t w")
  show ?case
  proof (cases "stop_in_cycle t \<or> stop_in_sleep t")
    case True
    then show ?thesis by auto
  next
    case False
    from Cons.prems it have x: "x = None" and rest: "monitoring_loop ts w1 = (Returned, w')"
      by (auto split: option.splits)
    have "is_running w1"
      using iteration_keeps_running[of t w w1] it x Cons.prems(2) False by simp
    from Cons.IH[OF rest this] show ?thesis by auto
  qed
qed

text \<open>
  C7, as the code has it. After a call of \<open>start_monitoring\<close> on a monitor that was not
  running: if an exception left the loop, \<open>is_running\<close> is false and the last two log
  lines are the handler's and the \<open>finally\<close> clause's: \<open>Error in monitoring loop\<close> at
  error level for an \<open>Exception\<close>, \<open>Monitoring loop cancelled\<close> at info level for
  \<open>CancelledError\<close>; if the loop returned, \<open>is_running\<close> is false and \<open>stop_monitoring\<close>
  was called during one of the iterations; otherwise the loop is still running.
\<close>

theorem loop_halts_by_exception_or_stop:
  assumes "\<not> is_running w" and "start_monitoring ts w = (res, w')"
  shows "case res of
           Pending \<Rightarrow> is_running w'
         | Returned \<Rightarrow> \<not> is_running w' \<and> (\<exists>t \<in> set ts. stop_in_cycle t \<or> stop_in_sleep t)
         | Raised e \<Rightarrow> \<not> is_running w' \<and>
             (\<exists>l. logs w' = l @
                [if e = CancelledError then (INFO, Monitoring_loop_cancelled)
                 else (ERROR, Error_in_monitoring_loop (str e)),
                 (INFO, Monitoring_stopped)])"
proof -
  let ?w0 = "say INFO (Starting_monitoring (ping_interval w)) (w\<lparr>is_running := True\<rparr>)"
  obtain r0 w1 where lp: "monitoring_loop ts ?w0 = (r0, w1)"
    by (cases "monitoring_loop ts ?w0")
  have run0: "is_running ?w0" by (simp add: say_def)
  show ?thesis
  proof (cases r0)
    case Pending
    then have "res = Pending" "w' = w1"
      using assms lp by (simp_all add: start_monitoring_def)
    then show ?thesis
      using monitoring_loop_pending_running[of ts ?w0 w1] lp Pending by simp
  next
    case Returned
    then have r: "res = Returned" "w' = finally_stopped w1"
      using assms lp by (simp_all add: start_monitoring_def)
    from monitoring_loop_returned_was_stopped[of ts ?w0 w1] lp Returned run0
    have "\<exists>t \<in> set ts. stop_in_cycle t \<or> stop_in_sleep t" by simp
    then show ?thesis using r by (simp add: finally_stopped_def say_def)
  next
    case (Raised e)
    show ?thesis
    proof (cases "e = CancelledError")
      case True
      then have r: "res = Raised e"
          "w' = finally_stopped (say INFO Monitoring_loop_cancelled w1)"
        using assms lp Raised by (simp_all add: start_monitoring_def)
      show ?thesis
        unfolding r using True
        by (simp add: finally_stopped_def say_def)
    next
      case False
      then have ie: "isinstance_Exception e" by (cases e) simp_all
      have r: "res = Raised e"
          "w' = finally_stopped (say ERROR (Error_in_monitoring_loop (str e)) w1)"
        using assms lp Raised False ie by (simp_all add: start_monitoring_def)
      show ?thesis
        unfolding r using False
        by (simp add: finally_stopped_def say_def)
    qed
  qed
qed

lemma broken_store_run:
  "start_monitoring [quiet_tick 5] broken_store
     = (Raised (Exception ''disk''),
        broken_store\<lparr>is_running := False,
          logs := [(INFO, Starting_monitoring 60), (ERROR, Error_in_monitoring_loop ''disk''),
                   (INFO, Monitoring_stopped)]\<rparr>)"
  by (simp add: start_monitoring_def broken_store_def URLMonitor_def DataManager_def
      say_def iteration_def quiet_tick_def ping_all_urls_def ping_all_urls_with_def
      get_all_urls_def finally_stopped_def)

theorem loop_halts_by_exception_or_stop_witness:
  "\<not> is_running broken_store
   \<and> fst (start_monitoring [quiet_tick 5] broken_store) = Raised (Exception ''disk'')
   \<and> \<not> is_running (snd (start_monitoring [quiet_tick 5] broken_store))
   \<and> (\<exists>l. logs (snd (start_monitoring [quiet_tick 5] broken_store))
            = l @ [(ERROR, Error_in_monitoring_loop ''disk''), (INFO, Monitoring_stopped)])"
proof -
  have h1: "\<not> is_running broken_store"
    by (simp add: broken_store_def URLMonitor_def)
  have h0: "fst (start_monitoring [quiet_tick 5] broken_store) = Raised (Exception ''disk'')"
    by (simp add: broken_store_run)
  have h2: "start_monitoring [quiet_tick 5] broken_store
      = (Raised (Exception ''disk''), snd (start_monitoring [quiet_tick 5] broken_store))"
    by (simp add: broken_store_run)
  have "\<not> is_running (snd (start_monitoring [quiet_tick 5] broken_store))
      \<and> (\<exists>l. logs (snd (start_monitoring [quiet_tick 5] broken_store))
            = l @ [(ERROR, Error_in_monitoring_loop ''disk''), (INFO, Monitoring_stopped)])"
    using loop_halts_by_exception_or_stop[OF h1 h2] by simp
  then show ?thesis using h1 h0 by blast
qed

text \<open>
  The claim C7 says every exception that leaves the loop is logged at error level. The
  task that runs the loop is cancelled while the probes of three registered URLs are in
  flight: \<open>CancelledError\<close> leaves \<open>start_monitoring\<close>, and the log holds info lines only.
\<close>

theorem cancelled_loop_logs_no_error:
  "fst (start_monitoring [cancel_tick] three_urls) = Raised CancelledError
   \<and> logs (snd (start_monitoring [cancel_tick] three_urls))
       = [(INFO, Starting_monitoring 60), (INFO, Monitoring_loop_cancelled),
          (INFO, Monitoring_stopped)]
   \<and> ERROR \<notin> fst ` set (logs (snd (start_monitoring [cancel_tick] three_urls)))"
proof -
  have "start_monitoring [cancel_tick] three_urls
      = (Raised CancelledError,
         three_urls\<lparr>is_running := False,
           logs := [(INFO, Starting_monitoring 60), (INFO, Monitoring_loop_cancelled),
                    (INFO, Monitoring_stopped)]\<rparr>)"
    using three_urls_store
    by (simp add: start_monitoring_def say_def iteration_def cancel_tick_def finally_stopped_def)
  then show ?thesis by simp
qed

subsection \<open>Stopping while a cycle is in progress\<close>

lemma ping_all_urls_writes_outbox:
  assumes "io_error (data_manager w) = None" and "get_all_urls (data_manager w) = Inr uta"
      and "never_interrupts net"
  shows "writes (snd (ping_all_urls net w)) = writes w @
           writes_due uta (oks (map (ping_url (request_timeout w) net) (map fst uta)))"
    and "outbox (snd (ping_all_urls net w)) = outbox w @
           filter (accepted (bot_instance w))
             (alerts_due uta (oks (map (ping_url (request_timeout w) net) (map fst uta))))"
proof -
  let ?p = "ping_url (request_timeout w) net"
  have ans: "list_all (\<lambda>u. answers_for u (?p u)) (map fst uta)"
    using assms(3) by (rule ping_url_answers_for)
  have hd: "list_all (handled uta) (map ?p (map fst uta))"
    using ans by (intro answers_for_all_handled) auto
  from ping_all_urls_with_effects[OF assms(1,2) hd] obtain w' where
    w': "ping_all_urls_with ?p w
           = (Inr (fold (\<lambda>r. AList.update (url r) r) (oks (map ?p (map fst uta))) []), w')"
        "writes w' = writes w @ writes_due uta (oks (map ?p (map fst uta)))"
        "outbox w' = outbox w @ filter (accepted (bot_instance w))
                                   (alerts_due uta (oks (map ?p (map fst uta))))"
    by blast
  show "writes (snd (ping_all_urls net w)) = writes w @ writes_due uta (oks (map ?p (map fst uta)))"
    using w' by (simp add: ping_all_urls_def)
  show "outbox (snd (ping_all_urls net w)) = outbox w @
           filter (accepted (bot_instance w)) (alerts_due uta (oks (map ?p (map fst uta))))"
    using w' by (simp add: ping_all_urls_def)
qed

text \<open>
  \<open>_monitoring_task\<close> is assigned once, in \<open>__init__\<close>, to \<open>None\<close>; no operation of the
  monitor changes it, so the monitor never holds a handle of its task.
\<close>

lemma iteration_monitoring_task:
  "monitoring_task (snd (iteration t w)) = monitoring_task w"
proof -
  obtain res w2 where p: "ping_all_urls (answers t) (if stop_in_cycle t then stop_monitoring w else w)
      = (res, w2)"
    by (cases "ping_all_urls (answers t) (if stop_in_cycle t then stop_monitoring w else w)")
  have fr: "monitoring_task w2 = monitoring_task w"
    using ping_all_urls_frame[of "answers t" "if stop_in_cycle t then stop_monitoring w else w"] p
      stop_monitoring_frame[of w]
    by (simp split: if_splits)
  show ?thesis
    using p fr stop_monitoring_frame[of w]
      stop_monitoring_frame[of "(say DEBUG (Sleeping (max 0 (real_of_int (ping_interval w2)
          - elapsed_time t))) w2)\<lparr>sleeps := sleeps w2 @ [max 0 (real_of_int (ping_interval w2)
          - elapsed_time t)]\<rparr>"]
    by (cases res) (auto simp: iteration_def Let_def say_def split: if_splits)
qed

lemma monitoring_loop_monitoring_task:
  "monitoring_task (snd (monitoring_loop ts w)) = monitoring_task w"
proof (induction ts arbitrary: w)
  case Nil
  then show ?case by simp
next
  case (Cons t ts)
  obtain x w1 where it: "iteration t w = (x, w1)" by (cases "iteration t w")
  have "monitoring_task w1 = monitoring_task w"
    using iteration_monitoring_task[of t w] it by simp
  then show ?case using it Cons.IH[of w1] by (cases x) simp_all
qed

lemma monitoring_task_never_assigned:
  "monitoring_task (URLMonitor interval timeout) = None"
  "monitoring_task (set_bot_instance b w) = monitoring_task w"
  "monitoring_task (snd (add_url u a w)) = monitoring_task w"
  "monitoring_task (stop_monitoring w) = monitoring_task w"
  "monitoring_task (snd (ping_all_urls net w)) = monitoring_task w"
  "monitoring_task (snd (start_monitoring ts w)) = monitoring_task w"
proof -
  show "monitoring_task (URLMonitor interval timeout) = None" by (simp add: URLMonitor_def)
  show "monitoring_task (set_bot_instance b w) = monitoring_task w"
    by (simp add: set_bot_instance_def)
  show "monitoring_task (snd (add_url u a w)) = monitoring_task w"
    by (simp add: add_url_def Let_def split: prod.splits)
  show "monitoring_task (stop_monitoring w) = monitoring_task w"
    using stop_monitoring_frame[of w] by simp
  show "monitoring_task (snd (ping_all_urls net w)) = monitoring_task w"
    using ping_all_urls_frame[of net w] by simp
  let ?w0 = "say INFO (Starting_monitoring (ping_interval w)) (w\<lparr>is_running := True\<rparr>)"
  obtain r0 w1 where lp: "monitoring_loop ts ?w0 = (r0, w1)"
    by (cases "monitoring_loop ts ?w0")
  have "monitoring_task w1 = monitoring_task w"
    using monitoring_loop_monitoring_task[of ts ?w0] lp by (simp add: say_def)
  then show "monitoring_task (snd (start_monitoring ts w)) = monitoring_task w"
    using lp
    by (cases r0) (auto simp: start_monitoring_def say_def finally_stopped_def)
qed

text \<open>
  C8. The monitor holds no task handle (\<open>_monitoring_task\<close> is \<open>None\<close>, see above), so
  \<open>stop_monitoring\<close> only clears the flag and logs its line. Called while the probes of a
  cycle are in flight, it lets the cycle run to its end: the loop makes the same calls of
  \<open>update_url_status\<close> and sends the same alerts as the cycle would have made
  undisturbed, and then returns at the top of the next iteration, whatever iterations
  were still to come.
\<close>

theorem stop_without_task_handle_finishes_cycle:
  assumes "monitoring_task w = None" and "is_running w" and "\<not> cancel_requested w"
      and "io_error (data_manager w) = None"
      and "stop_in_cycle t" and "\<not> task_cancelled t" and "never_interrupts (answers t)"
  shows "stop_monitoring w = say INFO Monitoring_stop_requested (w\<lparr>is_running := False\<rparr>)
       \<and> (\<exists>w'. monitoring_loop (t # ts) w = (Returned, w')
            \<and> \<not> is_running w' \<and> \<not> cancel_requested w'
            \<and> writes w' = writes (snd (ping_all_urls (answers t) w))
            \<and> outbox w' = outbox (snd (ping_all_urls (answers t) w))
            \<and> cycles_run w' = Suc (cycles_run w))"
proof -
  let ?w1 = "stop_monitoring w"
  note sf = stop_monitoring_frame[of w]
  have s1: "stop_monitoring w = say INFO Monitoring_stop_requested (w\<lparr>is_running := False\<rparr>)"
    using assms(1) by (simp add: stop_monitoring_def)
  have h1: "io_error (data_manager ?w1) = None" using sf assms(4) by simp
  have c1: "\<not> cancel_requested ?w1" using sf assms(1,3) by simp
  obtain res w2 where p: "ping_all_urls (answers t) ?w1 = (res, w2)"
    by (cases "ping_all_urls (answers t) ?w1")
  from ping_all_urls_ok(1)[OF h1 assms(7)] p obtain pr where res: "res = Inr pr"
    by auto
  have fr: "is_running w2 = False" "cancel_requested w2 = False" "monitoring_task w2 = None"
    using ping_all_urls_frame[of "answers t" ?w1] p sf assms(1,3) by simp_all
  from get_all_urls_healthy[OF assms(4)] obtain uta where
    uta: "get_all_urls (data_manager w) = Inr uta" by blast
  have uta1: "get_all_urls (data_manager ?w1) = Inr uta" using uta sf by simp
  have wr: "writes w2 = writes (snd (ping_all_urls (answers t) w))"
    using ping_all_urls_writes_outbox(1)[OF h1 uta1 assms(7)]
          ping_all_urls_writes_outbox(1)[OF assms(4) uta assms(7)] p sf
    by simp
  have ob: "outbox w2 = outbox (snd (ping_all_urls (answers t) w))"
    using ping_all_urls_writes_outbox(2)[OF h1 uta1 assms(7)]
          ping_all_urls_writes_outbox(2)[OF assms(4) uta assms(7)] p sf
    by simp
  have cr: "cycles_run w2 = Suc (cycles_run w)"
    using ping_all_urls_ok(3)[OF h1 assms(7)] p sf by (simp add: cycles_run_def)
  obtain x w3 where it: "iteration t w = (x, w3)" by (cases "iteration t w")
  have st2: "\<not> is_running (stop_monitoring v) \<and> writes (stop_monitoring v) = writes v
      \<and> outbox (stop_monitoring v) = outbox v
      \<and> cycles_run (stop_monitoring v) = cycles_run v
      \<and> cancel_requested (stop_monitoring v) = (cancel_requested v \<or> monitoring_task v \<noteq> None)"
    for v using stop_monitoring_frame[of v] by (simp add: cycles_run_def)
  have x: "x = None" and w3: "\<not> is_running w3" "\<not> cancel_requested w3"
      "writes w3 = writes w2" "outbox w3 = outbox w2" "cycles_run w3 = cycles_run w2"
    using it assms(5,6) c1 p res fr st2
    by (auto simp: iteration_def Let_def say_def cycles_run_def split: if_splits)
  have "monitoring_loop (t # ts) w = monitoring_loop ts w3"
    using assms(2) it x by simp
  also have "\<dots> = (Returned, w3)" using w3(1) by (cases ts) simp_all
  finally have "monitoring_loop (t # ts) w = (Returned, w3)" .
  then have "\<exists>w'. monitoring_loop (t # ts) w = (Returned, w')
            \<and> \<not> is_running w' \<and> \<not> cancel_requested w'
            \<and> writes w' = writes (snd (ping_all_urls (answers t) w))
            \<and> outbox w' = outbox (snd (ping_all_urls (answers t) w))
            \<and> cycles_run w' = Suc (cycles_run w)"
    using w3 wr ob cr by simp
  then show ?thesis using s1 by blast
qed

lemma three_urls_cycle_writes:
  "map w_url (writes (snd (ping_all_urls example_net (three_urls\<lparr>is_running := True\<rparr>))))
     = [''https://a.org'', ''https://b.org'', ''https://c.org'']"
proof -
  let ?w = "three_urls\<lparr>is_running := True\<rparr>"
  let ?uta = "[(''https://a.org'', ''1''), (''https://b.org'', ''1''), (''https://c.org'', ''1'')]"
  have h: "io_error (data_manager ?w) = None" "get_all_urls (data_manager ?w) = Inr ?uta"
      "writes ?w = []" "request_timeout ?w = 30"
    using three_urls_store by simp_all
  have ni: "never_interrupts example_net"
    by (simp add: example_net_def never_interrupts_undisturbed)
  show ?thesis
    unfolding ping_all_urls_writes_outbox(1)[OF h(1,2) ni] h
    by (simp add: ping_url_def example_net_def example_network_def undisturbed_def
        writes_due_def owners_def write_of_def)
qed

theorem stop_without_task_handle_finishes_cycle_witness:
  "monitoring_task (three_urls\<lparr>is_running := True\<rparr>) = None
   \<and> is_running (three_urls\<lparr>is_running := True\<rparr>)
   \<and> \<not> cancel_requested (three_urls\<lparr>is_running := True\<rparr>)
   \<and> io_error (data_manager (three_urls\<lparr>is_running := True\<rparr>)) = None
   \<and> stop_in_cycle stop_tick \<and> \<not> task_cancelled stop_tick
   \<and> never_interrupts (answers stop_tick)
   \<and> (\<exists>w'. monitoring_loop [stop_tick, quiet_tick 5] (three_urls\<lparr>is_running := True\<rparr>)
              = (Returned, w')
        \<and> \<not> is_running w' \<and> \<not> cancel_requested w'
        \<and> map w_url (writes w') = [''https://a.org'', ''https://b.org'', ''https://c.org'']
        \<and> cycles_run w' = 1)"
proof -
  let ?w = "three_urls\<lparr>is_running := True\<rparr>"
  have h1: "monitoring_task ?w = None" using three_urls_store by simp
  have h2: "is_running ?w" by simp
  have h3: "\<not> cancel_requested ?w" using three_urls_store by simp
  have h4: "io_error (data_manager ?w) = None" using three_urls_store by simp
  have h5: "stop_in_cycle stop_tick" by (simp add: stop_tick_def)
  have h6: "\<not> task_cancelled stop_tick" by (simp add: stop_tick_def)
  have h7: "never_interrupts (answers stop_tick)"
    by (simp add: stop_tick_def example_net_def never_interrupts_undisturbed)
  have a: "answers stop_tick = example_net" by (simp add: stop_tick_def)
  have c0: "cycles_run ?w = 0" using three_urls_store by (simp add: cycles_run_def)
  from stop_without_task_handle_finishes_cycle[OF h1 h2 h3 h4 h5 h6 h7, of "[quiet_tick 5]"]
  obtain w' where
    w': "monitoring_loop [stop_tick, quiet_tick 5] ?w = (Returned, w')"
        "\<not> is_running w'" "\<not> cancel_requested w'"
        "writes w' = writes (snd (ping_all_urls (answers stop_tick) ?w))"
        "cycles_run w' = Suc (cycles_run ?w)"
    by blast
  have c1: "map w_url (writes w') = [''https://a.org'', ''https://b.org'', ''https://c.org'']"
    unfolding w'(4) a by (rule three_urls_cycle_writes)
  have c2: "cycles_run w' = 1" using w'(5) c0 by simp
  have "\<exists>w'. monitoring_loop [stop_tick, quiet_tick 5] ?w = (Returned, w')
        \<and> \<not> is_running w' \<and> \<not> cancel_requested w'
        \<and> map w_url (writes w') = [''https://a.org'', ''https://b.org'', ''https://c.org'']
        \<and> cycles_run w' = 1"
    by (intro exI[of _ w'] conjI w'(1,2,3) c1 c2)
  then show ?thesis using h1 h2 h3 h4 h5 h6 h7 by blast
qed

end
